theory Spec2Isabelle
  imports Complex_Main "HOL-Library.Product_Lexorder"
begin

section \<open>Data model of \<open>ConfigManager\<close>\<close>

text \<open>
  A four-point configuration is one row (A, B, M, N). Electrode numbers are modelled as
  unbounded integers; the arrays read from files hold floats with integral values, which
  numpy treats exactly in the range used here.
\<close>

type_synonym quad = "int \<times> int \<times> int \<times> int"

text \<open>
  The exceptions the modelled methods raise. The first four are the \<open>Exception(...)\<close>
  objects the source raises itself, named after their message; the others are raised by
  Python or numpy underneath.
\<close>

datatype error =
    NoConfigs         \<comment> \<open>must read in configuration before measurements can be stored\<close>
  | ShapeMismatch     \<comment> \<open>Number of measurements does not match number of configs\<close>
  | CountMismatch     \<comment> \<open>indicated number of measurements does not equal ...\<close>
  | ConfigMismatch    \<comment> \<open>previously stored configurations do not match new configurations\<close>
  | IndexError
  | TypeError
  | AttributeError
  | OverflowError
  | ValueError

text \<open>
  \<open>add_to_configs\<close> takes a list or an array. Of the arguments it can be given, the
  model has a Python list of rows, a Kx4 array, and a 1D array holding one
  configuration.
\<close>

datatype batch = ListBatch "quad list" | ArrayBatch "quad list" | Array1Batch quad

text \<open>
  What \<open>self.configs\<close> can hold once it is not \<open>None\<close>: a Kx4 array, or, because
  \<open>add_to_configs\<close> assigns its argument as it is when nothing is stored yet, a 1D
  array of one configuration or a Python list of rows. A stored list has at least one
  row, since \<open>add_to_configs\<close> returns before it stores an empty argument.
\<close>

datatype stored = StoredArray "quad list" | StoredArray1 quad | StoredList quad "quad list"

text \<open>\<open>len(configs)\<close> of an argument, and its rows after \<open>np.atleast_2d\<close>.\<close>

definition batch_len :: "batch \<Rightarrow> nat" where
  "batch_len b = (case b of ListBatch l \<Rightarrow> length l | ArrayBatch c \<Rightarrow> length c
                  | Array1Batch q \<Rightarrow> 4)"

definition batch_rows :: "batch \<Rightarrow> quad list" where
  "batch_rows b = (case b of ListBatch l \<Rightarrow> l | ArrayBatch c \<Rightarrow> c | Array1Batch q \<Rightarrow> [q])"

text \<open>
  The rows of the stored value where numpy converts it to a 2D array (\<open>np.vstack\<close>) or
  to an array (a comparison with an array).
\<close>

definition stored_rows :: "stored \<Rightarrow> quad list" where
  "stored_rows st = (case st of StoredArray c \<Rightarrow> c | StoredArray1 q \<Rightarrow> [q]
                     | StoredList q qs \<Rightarrow> q # qs)"

text \<open>
  \<open>self.configs.shape[0]\<close>: a list has no attribute \<open>shape\<close>; the 1D array of one
  configuration has four elements.
\<close>

definition stored_shape0 :: "stored \<Rightarrow> error + nat" where
  "stored_shape0 st = (case st of StoredArray c \<Rightarrow> Inr (length c)
                       | StoredArray1 q \<Rightarrow> Inr 4
                       | StoredList q qs \<Rightarrow> Inl AttributeError)"

text \<open>
  \<open>self.configs[:, k]\<close> and \<open>self.configs[:, 0:2]\<close>: a 2D index into a 1D array and a
  tuple index into a list raise.
\<close>

definition stored_columns :: "stored \<Rightarrow> error + quad list" where
  "stored_columns st = (case st of StoredArray c \<Rightarrow> Inr c
                        | StoredArray1 q \<Rightarrow> Inl IndexError
                        | StoredList q qs \<Rightarrow> Inl TypeError)"

text \<open>
  The instance attributes set by \<open>__init__\<close>. \<open>configs\<close> is \<open>None\<close> until
  configurations are stored; \<open>measurements\<close> is the dict from measurement id to data set.
\<close>

record 'v ConfigManager =
  configs :: "stored option"
  measurements :: "int \<rightharpoonup> 'v list"
  metadata :: "int \<rightharpoonup> string"
  meas_counter :: int
  nr_electrodes :: "int option"

definition new_ConfigManager :: "int option \<Rightarrow> 'v ConfigManager" where
  "new_ConfigManager nr_of_electrodes =
     \<lparr>configs = None, measurements = Map.empty, metadata = Map.empty,
      meas_counter = - 1, nr_electrodes = nr_of_electrodes\<rparr>"

definition get_next_index :: "'v ConfigManager \<Rightarrow> int \<times> 'v ConfigManager" where
  "get_next_index s =
     (let s' = s\<lparr>meas_counter := meas_counter s + 1\<rparr> in (meas_counter s', s'))"

definition nr_of_configs :: "'v ConfigManager \<Rightarrow> error + nat" where
  "nr_of_configs s = (case configs s of None \<Rightarrow> Inr 0 | Some st \<Rightarrow> stored_shape0 st)"

section \<open>Storing configurations\<close>

text \<open>
  \<open>add_to_configs\<close> returns \<open>None\<close> for an argument of length 0. With nothing
  stored it assigns the argument itself; otherwise it stacks the stored rows and the
  rows of the argument into one array. It returns what is stored.
\<close>

definition add_to_configs ::
  "batch \<Rightarrow> 'v ConfigManager \<Rightarrow> stored option \<times> 'v ConfigManager" where
  "add_to_configs cfgs s =
     (if batch_len cfgs = 0 then (None, s)
      else (case configs s of
              None \<Rightarrow>
                (let st = (case cfgs of
                             ListBatch l \<Rightarrow> StoredList (hd l) (tl l)
                           | ArrayBatch c \<Rightarrow> StoredArray c
                           | Array1Batch q \<Rightarrow> StoredArray1 q)
                 in (Some st, s\<lparr>configs := Some st\<rparr>))
            | Some old \<Rightarrow>
                (let st = StoredArray (stored_rows old @ batch_rows cfgs)
                 in (Some st, s\<lparr>configs := Some st\<rparr>))))"

section \<open>CRMod pair format\<close>

text \<open>
  \<open>_get_crmod_abmn\<close> merges the columns pairwise, \<open>_crmod_to_abmn\<close> splits the two
  merged columns again. Both work on whole columns; the pair functions are the
  per-element arithmetic.
\<close>

definition crmod_merge :: "int \<Rightarrow> int \<Rightarrow> int" where
  "crmod_merge c0 c1 = c0 * 10000 + c1"

definition crmod_split :: "int \<Rightarrow> int \<times> int" where
  "crmod_split v = (v mod 10000, v div 10000)"

definition get_crmod_abmn :: "'v ConfigManager \<Rightarrow> error + (int \<times> int) list" where
  "get_crmod_abmn s =
     (case configs s of
        None \<Rightarrow> Inl TypeError
      | Some st \<Rightarrow>
          (case stored_columns st of
             Inl e \<Rightarrow> Inl e
           | Inr c \<Rightarrow> Inr (map (\<lambda>(a, b, m, n). (crmod_merge a b, crmod_merge m n)) c)))"

definition crmod_to_abmn :: "(int \<times> int) list \<Rightarrow> quad list" where
  "crmod_to_abmn cfgs =
     map (\<lambda>(ab, mn). (fst (crmod_split ab), snd (crmod_split ab),
                       fst (crmod_split mn), snd (crmod_split mn))) cfgs"

section \<open>Storing measurements\<close>

text \<open>
  The argument of \<open>add_measurements\<close> is a 1D array or a 2D array. A 2D array carries
  its number of columns, which the list of rows alone does not give when there is no row.
  \<open>atleast_2d\<close> turns both into a pair of the second dimension and the rows.
\<close>

datatype 'v ndarray = Arr1 "'v list" | Arr2 nat "'v list list"

type_synonym 'v array2 = "nat \<times> 'v list list"

definition atleast_2d :: "'v ndarray \<Rightarrow> 'v array2" where
  "atleast_2d m = (case m of Arr1 v \<Rightarrow> (length v, [v]) | Arr2 n rows \<Rightarrow> (n, rows))"

definition shape0 :: "'v array2 \<Rightarrow> nat" where
  "shape0 m = length (snd m)"

definition shape1 :: "'v array2 \<Rightarrow> nat" where
  "shape1 m = fst m"

definition transposed :: "'v array2 \<Rightarrow> 'v array2" where
  "transposed m = (length (snd m), map (\<lambda>j. map (\<lambda>r. r ! j) (snd m)) [0..<fst m])"

text \<open>The value returned: one id for one data set, the list of ids otherwise.\<close>

datatype mid = OneId int | IdList "int list"

definition ids_of :: "mid \<Rightarrow> int list" where
  "ids_of r = (case r of OneId i \<Rightarrow> [i] | IdList l \<Rightarrow> l)"

text \<open>The loop \<open>for dataset in subdata\<close>; \<open>return_ids\<close> is the accumulator.\<close>

fun store_datasets ::
  "'v list list \<Rightarrow> int list \<Rightarrow> 'v ConfigManager \<Rightarrow> int list \<times> 'v ConfigManager" where
  "store_datasets [] return_ids s = (return_ids, s)"
| "store_datasets (dataset # rest) return_ids s =
     (let (cid, s1) = get_next_index s;
          s2 = s1\<lparr>measurements := (measurements s1)(cid \<mapsto> dataset)\<rparr>
      in store_datasets rest (return_ids @ [cid]) s2)"

text \<open>The part of \<open>add_measurements\<close> after the shape check: the loop and the return.\<close>

definition store_and_return ::
  "'v array2 \<Rightarrow> 'v ConfigManager \<Rightarrow> (error + mid) \<times> 'v ConfigManager" where
  "store_and_return subdata s =
     (let (return_ids, s') = store_datasets (snd subdata) [] s
      in (Inr (case return_ids of [i] \<Rightarrow> OneId i | _ \<Rightarrow> IdList return_ids), s'))"

definition add_measurements ::
  "'v ndarray \<Rightarrow> 'v ConfigManager \<Rightarrow> (error + mid) \<times> 'v ConfigManager" where
  "add_measurements m s =
     (let subdata = atleast_2d m in
      case configs s of
        None \<Rightarrow> (Inl NoConfigs, s)
      | Some st \<Rightarrow>
          (case stored_shape0 st of
             Inl e \<Rightarrow> (Inl e, s)
           | Inr n \<Rightarrow>
               (if shape1 subdata \<noteq> n
                then (if shape0 subdata = n
                      then store_and_return (transposed subdata) s
                      else (Inl ShapeMismatch, s))
                else store_and_return subdata s)))"

section \<open>Reading CRMod files\<close>

text \<open>
  A file is modelled by what the first two statements of the loaders parse from it: the
  number in the first line and the table \<open>loadtxt\<close> reads after it. Every row of the
  table has the two merged columns and, after them, the same number of further columns;
  a configuration file has none, a measurement file should have the magnitude and the
  phase. \<open>loadtxt\<close> returns a 2D array only for two rows or more: for one row it
  returns that row as a 1D array, for no row an empty 1D array, and the slice
  \<open>[:, 0:2]\<close> of a 1D array raises.
\<close>

type_synonym 'v crmod_file = "int \<times> nat \<times> (int \<times> int \<times> 'v list) list"

definition loadtxt_shape0 :: "nat \<Rightarrow> 'r list \<Rightarrow> nat" where
  "loadtxt_shape0 ncols rows = (case rows of [] \<Rightarrow> 0 | [r] \<Rightarrow> ncols | _ \<Rightarrow> length rows)"

definition loadtxt_is_2d :: "'r list \<Rightarrow> bool" where
  "loadtxt_is_2d rows = (2 \<le> length rows)"

text \<open>The two merged columns of the table, \<open>[:, 0:2]\<close>, and a further column, \<open>[:, 2 + k]\<close>.\<close>

definition merged_columns :: "(int \<times> int \<times> 'v list) list \<Rightarrow> (int \<times> int) list" where
  "merged_columns rows = map (\<lambda>(ab, mn, vs). (ab, mn)) rows"

definition further_column :: "nat \<Rightarrow> (int \<times> int \<times> 'v list) list \<Rightarrow> 'v list" where
  "further_column k rows = map (\<lambda>(ab, mn, vs). vs ! k) rows"

definition load_crmod_config ::
  "'v crmod_file \<Rightarrow> 'v ConfigManager \<Rightarrow> (error + unit) \<times> 'v ConfigManager" where
  "load_crmod_config f s =
     (let nr = fst f; further = fst (snd f); cfgs = snd (snd f) in
      if nr \<noteq> int (loadtxt_shape0 (2 + further) cfgs) then (Inl CountMismatch, s)
      else if \<not> loadtxt_is_2d cfgs then (Inl IndexError, s)
      else (Inr (), s\<lparr>configs := Some (StoredArray (crmod_to_abmn (merged_columns cfgs)))\<rparr>))"

text \<open>
  \<open>np.all(ABMN == self.configs)\<close>. The stored 1D array of one configuration is
  broadcast against every row. Otherwise arrays of the same number of rows are compared
  row by row and an array of one row is broadcast against the other; for any other pair
  of shapes the comparison itself raises.
\<close>

definition np_all_eq :: "quad list \<Rightarrow> stored \<Rightarrow> error + bool" where
  "np_all_eq x st =
     (case st of
        StoredArray1 q \<Rightarrow> Inr (list_all (\<lambda>r. r = q) x)
      | _ \<Rightarrow>
          (let y = stored_rows st in
           if length x = length y then Inr (x = y)
           else if length y = 1 then Inr (list_all (\<lambda>r. r = hd y) x)
           else if length x = 1 then Inr (list_all (\<lambda>r. r = hd x) y)
           else Inl ValueError))"

text \<open>
  The last three statements of \<open>load_crmod_volt\<close>, under the comment \<open>add data\<close>:
  the column of the magnitudes is taken and stored, then the column of the phases. A
  column the table does not have raises when it is taken.
\<close>

definition add_data ::
  "nat \<Rightarrow> (int \<times> int \<times> 'v list) list \<Rightarrow> 'v ConfigManager \<Rightarrow>
     (error + mid list) \<times> 'v ConfigManager" where
  "add_data further meas s =
     (if further < 1 then (Inl IndexError, s)
      else
        (case add_measurements (Arr1 (further_column 0 meas)) s of
           (Inl e, s1) \<Rightarrow> (Inl e, s1)
         | (Inr cid_mag, s1) \<Rightarrow>
             (if further < 2 then (Inl IndexError, s1)
              else
                (case add_measurements (Arr1 (further_column 1 meas)) s1 of
                   (Inl e, s2) \<Rightarrow> (Inl e, s2)
                 | (Inr cid_pha, s2) \<Rightarrow> (Inr [cid_mag, cid_pha], s2)))))"

definition load_crmod_volt ::
  "'v crmod_file \<Rightarrow> 'v ConfigManager \<Rightarrow> (error + mid list) \<times> 'v ConfigManager" where
  "load_crmod_volt f s =
     (let nr = fst f; further = fst (snd f); meas = snd (snd f) in
      if nr \<noteq> int (loadtxt_shape0 (2 + further) meas) then (Inl CountMismatch, s)
      else if \<not> loadtxt_is_2d meas then (Inl IndexError, s)
      else
        (let ABMN = crmod_to_abmn (merged_columns meas) in
         case configs s of
           None \<Rightarrow> add_data further meas (s\<lparr>configs := Some (StoredArray ABMN)\<rparr>)
         | Some st \<Rightarrow>
             (case np_all_eq ABMN st of
                Inl e \<Rightarrow> (Inl e, s)
              | Inr same \<Rightarrow>
                  (if \<not> same then (Inl ConfigMismatch, s)
                   else add_data further meas s))))"

text \<open>
  A sequence of \<open>add_measurements\<close> calls on one instance, collecting the ids each call
  assigns; it stops at the first call that raises.
\<close>

fun add_all ::
  "'v ndarray list \<Rightarrow> 'v ConfigManager \<Rightarrow> (error + int list) \<times> 'v ConfigManager" where
  "add_all [] s = (Inr [], s)"
| "add_all (m # ms) s =
     (case add_measurements m s of
        (Inl e, s1) \<Rightarrow> (Inl e, s1)
      | (Inr r, s1) \<Rightarrow>
          (case add_all ms s1 of
             (Inl e, s2) \<Rightarrow> (Inl e, s2)
           | (Inr ids, s2) \<Rightarrow> (Inr (ids_of r @ ids), s2)))"

section \<open>Wenner generator\<close>

text \<open>The loop \<open>for i in range(1, nr_electrodes - 3 * a + 1)\<close>, appending one row each turn.\<close>

function wenner_loop :: "int \<Rightarrow> int \<Rightarrow> int \<Rightarrow> quad list \<Rightarrow> quad list" where
  "wenner_loop i stop a acc =
     (if i < stop then wenner_loop (i + 1) stop a (acc @ [(i, i + a, i + 2 * a, i + 3 * a)])
      else acc)"
  by pat_completeness auto
termination
  by (relation "measure (\<lambda>(i, stop, a, acc). nat (stop - i))") auto

declare wenner_loop.simps [simp del]

definition gen_wenner ::
  "int \<Rightarrow> 'v ConfigManager \<Rightarrow> (error + quad list) \<times> 'v ConfigManager" where
  "gen_wenner a s =
     (case nr_electrodes s of
        None \<Rightarrow> (Inl TypeError, s)
      | Some E \<Rightarrow>
          (let cfgs = wenner_loop 1 (E - 3 * a + 1) a []
           in (Inr cfgs, snd (add_to_configs (ArrayBatch cfgs) s))))"

section \<open>Schlumberger generator\<close>

text \<open>
  \<open>int(x)\<close> of a float truncates towards zero. The floats of \<open>gen_schlumberger\<close> are
  quotients of small integers and are modelled as rationals.
\<close>

definition py_int :: "rat \<Rightarrow> int" where
  "py_int x = (if 0 \<le> x then \<lfloor>x\<rfloor> else \<lceil>x\<rceil>)"

text \<open>The loop \<open>for i in range(0, min(nr_of_steps_left, nr_of_steps_right))\<close>.\<close>

function schlumberger_loop ::
  "int \<Rightarrow> int \<Rightarrow> int \<Rightarrow> int \<Rightarrow> int \<Rightarrow> quad list \<Rightarrow> quad list" where
  "schlumberger_loop i stop a M N acc =
     (if i < stop
      then schlumberger_loop (i + 1) stop a M N
             (acc @ [(min M N - (i + 1) * a, max M N + (i + 1) * a, M, N)])
      else acc)"
  by pat_completeness auto
termination
  by (relation "measure (\<lambda>(i, stop, a, M, N, acc). nat (stop - i))") auto

declare schlumberger_loop.simps [simp del]

text \<open>
  For \<open>M = N\<close> the spacing is 0: numpy evaluates \<open>1 / a\<close> to infinity, and \<open>int\<close> of
  the infinite difference raises. The number of electrodes is read after that.
\<close>

definition gen_schlumberger ::
  "int \<Rightarrow> int \<Rightarrow> 'v ConfigManager \<Rightarrow> (error + quad list) \<times> 'v ConfigManager" where
  "gen_schlumberger M N s =
     (let a = \<bar>M - N\<bar> in
      if a = 0 then (Inl OverflowError, s)
      else
        (let nr_of_steps_left = py_int (of_int (min M N) - 1 / of_int a) in
         case nr_electrodes s of
           None \<Rightarrow> (Inl TypeError, s)
         | Some E \<Rightarrow>
             (let nr_of_steps_right = py_int (of_int (E - max M N) / of_int a);
                  cfgs = schlumberger_loop 0 (min nr_of_steps_left nr_of_steps_right) a M N []
              in (Inr cfgs, snd (add_to_configs (ArrayBatch cfgs) s)))))"

section \<open>Duplicate removal\<close>

text \<open>
  \<open>np.unique\<close> on the view that makes each row one structured element: the rows are
  sorted, field by field, and of each run of equal rows the first is kept.
\<close>

definition np_unique :: "quad list \<Rightarrow> quad list" where
  "np_unique c = remdups_adj (sort c)"

text \<open>
  Without an argument \<open>remove_duplicates\<close> works on \<open>self.configs\<close>, replaces it and
  returns \<open>None\<close>; \<open>None\<close> and a list have no \<open>view\<close>, and the 1D array of one
  configuration becomes an array of one row. With an argument, a Kx4 array, it returns
  the unique rows and leaves the instance alone.
\<close>

definition remove_duplicates ::
  "quad list option \<Rightarrow> 'v ConfigManager \<Rightarrow>
     (error + quad list option) \<times> 'v ConfigManager" where
  "remove_duplicates cfgs s =
     (case cfgs of
        None \<Rightarrow>
          (case configs s of
             None \<Rightarrow> (Inl AttributeError, s)
           | Some (StoredList q qs) \<Rightarrow> (Inl AttributeError, s)
           | Some st \<Rightarrow> (Inr None, s\<lparr>configs := Some (StoredArray (np_unique (stored_rows st)))\<rparr>))
      | Some c \<Rightarrow> (Inr (Some (np_unique c)), s))"

section \<open>Normal and reciprocal configurations\<close>

text \<open>
  An entry of the two returned arrays is a stored row or the row of four \<open>nan\<close> that
  pads the side without a measurement.
\<close>

datatype entry = Row quad | Nan4

text \<open>The array \<open>configs\<close> of the method: AB and MN of every row sorted.\<close>

definition sort_halves :: "quad \<Rightarrow> quad" where
  "sort_halves q = (case q of (a, b, m, n) \<Rightarrow> (min a b, max a b, min m n, max m n))"

text \<open>The condition of the \<open>np.where\<close> that looks for the reciprocal of row \<open>index\<close>.\<close>

definition is_rec_of :: "quad \<Rightarrow> quad \<Rightarrow> bool" where
  "is_rec_of cj ci =
     (case cj of (a, b, m, n) \<Rightarrow> case ci of (a', b', m', n') \<Rightarrow>
        a = m' \<and> b = n' \<and> m = a' \<and> n = b')"

text \<open>
  The loop over \<open>indices_normal\<close>. \<open>orig\<close> is \<open>self.configs\<close>, \<open>srt\<close> the sorted
  array; the state is \<open>indices_used\<close>, \<open>normal\<close>, \<open>reciprocal\<close>, \<open>duplicates\<close>. The
  last \<open>elif\<close> tests \<open>len(index_rec > 1)\<close>, the length of a boolean array, which is the
  length of \<open>index_rec\<close>.
\<close>

fun normal_loop ::
  "bool \<Rightarrow> quad list \<Rightarrow> quad list \<Rightarrow> nat list \<Rightarrow>
     nat list \<times> entry list \<times> entry list \<times> nat list \<Rightarrow>
     nat list \<times> entry list \<times> entry list \<times> nat list" where
  "normal_loop pad orig srt [] st = st"
| "normal_loop pad orig srt (index # rest) (indices_used, normal, reciprocal, duplicates) =
     (let indices_used1 = indices_used @ [index];
          normal1 = normal @ [Row (orig ! index)];
          index_rec = filter (\<lambda>j. is_rec_of (srt ! j) (srt ! index)) [0..<length srt]
      in normal_loop pad orig srt rest
           (if length index_rec = 0 \<and> pad
            then (indices_used1, normal1, reciprocal @ [Nan4], duplicates)
            else if length index_rec = 1
            then (indices_used1 @ [index_rec ! 0], normal1,
                  reciprocal @ [Row (orig ! (index_rec ! 0))], duplicates)
            else if length index_rec \<noteq> 0
            then (indices_used1 @ index_rec, normal1,
                  reciprocal @ [Row (orig ! (index_rec ! 0))], duplicates @ tl index_rec)
            else (indices_used1, normal1, reciprocal, duplicates)))"

text \<open>
  The loop over \<open>reciprocal_only_indices\<close>, in the order in which the set is iterated.
\<close>

fun reciprocal_only_loop ::
  "bool \<Rightarrow> quad list \<Rightarrow> nat list \<Rightarrow> entry list \<times> entry list \<Rightarrow> entry list \<times> entry list" where
  "reciprocal_only_loop pad orig [] st = st"
| "reciprocal_only_loop pad orig (index # rest) (normal, reciprocal) =
     reciprocal_only_loop pad orig rest
       ((if pad then normal @ [Nan4] else normal), reciprocal @ [Row (orig ! index)])"

text \<open>
  \<open>reciprocal_only_indices\<close> is a Python set, and the order in which a set is iterated
  is not part of the source. It is the parameter \<open>set_order\<close>, which is given the
  elements of the set in ascending order and returns them in the order of iteration.
\<close>

definition split_into_normal_and_reciprocal ::
  "(nat list \<Rightarrow> nat list) \<Rightarrow> bool \<Rightarrow> 'v ConfigManager \<Rightarrow> error + entry list \<times> entry list" where
  "split_into_normal_and_reciprocal set_order pad s =
     (case configs s of
        None \<Rightarrow> Inl TypeError
      | Some st \<Rightarrow>
          (case stored_columns st of
             Inl e \<Rightarrow> Inl e
           | Inr orig \<Rightarrow>
               (let srt = map sort_halves orig;
                    indices_normal =
                      filter (\<lambda>i. fst (srt ! i) < fst (snd (snd (srt ! i)))) [0..<length srt];
                    (indices_used, normal, reciprocal, duplicates) =
                      normal_loop pad orig srt indices_normal ([], [], [], []);
                    reciprocal_only_indices =
                      set_order (filter (\<lambda>i. i \<notin> set indices_used) [0..<length srt])
                in Inr (reciprocal_only_loop pad orig reciprocal_only_indices
                          (normal, reciprocal)))))"

text \<open>
  What it means for the entries at one position of the two returned arrays to belong
  together. A row is normal when, with its halves sorted, its first electrode is smaller
  than its third. A normal row stands beside a stored row whose sorted halves are its own
  exchanged, or beside the padding when no stored row is; the padding on the normal side
  stands beside a stored row that is not normal.
\<close>

abbreviation is_normal :: "quad \<Rightarrow> bool" where
  "is_normal q \<equiv> fst (sort_halves q) < fst (snd (snd (sort_halves q)))"

abbreviation aligned :: "quad list \<Rightarrow> entry \<Rightarrow> entry \<Rightarrow> bool" where
  "aligned orig n r \<equiv>
     (case n of
        Row q \<Rightarrow> q \<in> set orig \<and> is_normal q \<and>
          (case r of
             Row q' \<Rightarrow> q' \<in> set orig \<and> is_rec_of (sort_halves q') (sort_halves q)
           | Nan4 \<Rightarrow> \<forall>q' \<in> set orig. \<not> is_rec_of (sort_halves q') (sort_halves q))
      | Nan4 \<Rightarrow> (case r of Row q' \<Rightarrow> q' \<in> set orig \<and> \<not> is_normal q' | Nan4 \<Rightarrow> False))"

section \<open>Properties\<close>

subsection \<open>Number of configurations\<close>

text \<open>
  What \<open>nr_of_configs\<close> returns while nothing is stored and while an array of rows is
  stored.
\<close>

lemma nr_of_configs_array:
  "nr_of_configs (new_ConfigManager n) = Inr 0"
  "configs s = None \<Longrightarrow> nr_of_configs s = Inr 0"
  "configs s = Some (StoredArray c) \<Longrightarrow> nr_of_configs s = Inr (length c)"
  by (simp_all add: nr_of_configs_def new_ConfigManager_def stored_shape0_def)

text \<open>
  C9: \<open>nr_of_configs\<close> should return the number of stored rows whenever configurations
  are stored. On a new instance \<open>add_to_configs\<close> stores its argument as it is: after
  the list of the two rows (1, 2, 3, 4) and (2, 3, 4, 5) was added, \<open>nr_of_configs\<close>
  raises, and after the 1D array of the one configuration (1, 2, 3, 4) was added it
  returns 4.
\<close>

theorem nr_of_configs_after_first_add:
  "nr_of_configs
     (snd (add_to_configs (ListBatch [(1, 2, 3, 4), (2, 3, 4, 5)]) (new_ConfigManager n)))
     = Inl AttributeError \<and>
   nr_of_configs (snd (add_to_configs (Array1Batch (1, 2, 3, 4)) (new_ConfigManager n)))
     = Inr 4"
  by (simp add: nr_of_configs_def add_to_configs_def batch_len_def new_ConfigManager_def
      stored_shape0_def Let_def)

text \<open>
  The same two arguments added to an instance that has an array stored are stacked under
  it, and \<open>nr_of_configs\<close> counts the rows.
\<close>

lemma nr_of_configs_after_later_add:
  "configs s = Some (StoredArray c) \<Longrightarrow> batch_len b \<noteq> 0 \<Longrightarrow>
   nr_of_configs (snd (add_to_configs b s)) = Inr (length c + length (batch_rows b))"
  by (simp add: nr_of_configs_def add_to_configs_def stored_shape0_def stored_rows_def Let_def)

subsection \<open>Empty batches\<close>

text \<open>
  C10: \<open>add_to_configs\<close> with a batch of length 0, a list or an array, returns \<open>None\<close>
  and leaves the instance, in particular the stored configurations, as it was, whatever
  was stored.
\<close>

theorem add_to_configs_empty:
  "add_to_configs (ListBatch []) s = (None, s) \<and> add_to_configs (ArrayBatch []) s = (None, s)"
  by (simp add: add_to_configs_def batch_len_def)

subsection \<open>CRMod pair format\<close>

text \<open>
  What splitting does to a merged pair: it returns the two numbers in the opposite
  order, for every second number that fits in four digits.
\<close>

lemma crmod_split_merge:
  "0 \<le> y \<Longrightarrow> y < 10000 \<Longrightarrow> crmod_split (crmod_merge x y) = (y, x)"
  by (simp add: crmod_split_def crmod_merge_def)

text \<open>
  C1: decoding an encoded pair should give the pair back in its order. For the stored
  row (1, 2, 3, 4) \<open>_get_crmod_abmn\<close> writes (10002, 30004), and \<open>_crmod_to_abmn\<close>
  reads that row as (2, 1, 4, 3): both pairs come back swapped.
\<close>

theorem crmod_roundtrip_swaps:
  "get_crmod_abmn ((new_ConfigManager None)\<lparr>configs := Some (StoredArray [(1, 2, 3, 4)])\<rparr>)
     = Inr [(10002, 30004)] \<and>
   crmod_to_abmn [(10002, 30004)] = [(2, 1, 4, 3)]"
  by (simp add: get_crmod_abmn_def stored_columns_def crmod_to_abmn_def crmod_split_def
      crmod_merge_def)

subsection \<open>Schlumberger generator\<close>

text \<open>
  C2: every configuration \<open>gen_schlumberger\<close> generates should lie within the electrode
  range. With 9 electrodes, M = 3 and N = 5 the spacing is 2 and one step fits on the
  left; the method takes two steps and generates, and stores, a row with the electrode
  number -1.
\<close>

theorem gen_schlumberger_leaves_range:
  "fst (gen_schlumberger 3 5 (new_ConfigManager (Some 9)))
     = Inr [(1, 7, 3, 5), (- 1, 9, 3, 5)] \<and>
   configs (snd (gen_schlumberger 3 5 (new_ConfigManager (Some 9))))
     = Some (StoredArray [(1, 7, 3, 5), (- 1, 9, 3, 5)])"
  by (simp add: gen_schlumberger_def new_ConfigManager_def py_int_def
      schlumberger_loop.simps add_to_configs_def batch_len_def Let_def)

subsection \<open>Wenner generator\<close>

lemma wenner_loop_eq:
  "wenner_loop i stop a acc = acc @ map (\<lambda>k. (k, k + a, k + 2 * a, k + 3 * a)) [i..stop - 1]"
proof (induction i stop a acc rule: wenner_loop.induct)
  case (1 i stop a acc)
  show ?case
  proof (cases "i < stop")
    case True
    then have "[i..stop - 1] = i # [i + 1..stop - 1]"
      by (simp add: upto_rec1)
    with True 1 show ?thesis
      by (subst wenner_loop.simps) simp
  next
    case False
    then show ?thesis
      by (subst wenner_loop.simps) simp
  qed
qed

text \<open>
  C8: with E electrodes and a spacing a such that E is at least 3a + 1, \<open>gen_wenner\<close>
  returns exactly the rows (i, i + a, i + 2a, i + 3a) for i from 1 to E - 3a, in this
  order, and appends them to the stored configurations; for a = 1 and 8 electrodes these
  are the five rows from (1, 2, 3, 4) to (5, 6, 7, 8).
\<close>

theorem gen_wenner_spec:
  assumes "nr_electrodes s = Some E" and "3 * a + 1 \<le> E"
  shows "fst (gen_wenner a s) =
           Inr (map (\<lambda>i. (i, i + a, i + 2 * a, i + 3 * a)) [1..E - 3 * a]) \<and>
         configs (snd (gen_wenner a s)) =
           Some (StoredArray ((case configs s of None \<Rightarrow> [] | Some old \<Rightarrow> stored_rows old) @
                 map (\<lambda>i. (i, i + a, i + 2 * a, i + 3 * a)) [1..E - 3 * a])) \<and>
         (E = 8 \<and> a = 1 \<longrightarrow>
            fst (gen_wenner a s) =
              Inr [(1, 2, 3, 4), (2, 3, 4, 5), (3, 4, 5, 6), (4, 5, 6, 7), (5, 6, 7, 8)])"
proof -
  let ?rows = "map (\<lambda>i. (i, i + a, i + 2 * a, i + 3 * a)) [1..E - 3 * a]"
  have loop: "wenner_loop 1 (E - 3 * a + 1) a [] = ?rows"
    by (simp add: wenner_loop_eq)
  have "1 \<le> E - 3 * a"
    using assms(2) by simp
  then have "[1..E - 3 * a] \<noteq> []"
    by (simp add: upto_rec1)
  then have ne: "?rows \<noteq> []"
    by simp
  have r: "fst (gen_wenner a s) = Inr ?rows"
    using assms(1) by (simp add: gen_wenner_def loop Let_def)
  have c: "configs (snd (gen_wenner a s)) =
           Some (StoredArray ((case configs s of None \<Rightarrow> [] | Some old \<Rightarrow> stored_rows old) @ ?rows))"
    using assms(1) ne
    by (simp add: gen_wenner_def loop Let_def add_to_configs_def batch_len_def batch_rows_def
        split: option.split)
  have "map (\<lambda>i. (i, i + 1, i + 2 * 1, i + 3 * 1)) [1..(8::int) - 3 * 1]
          = [(1, 2, 3, 4), (2, 3, 4, 5), (3, 4, 5, 6), (4, 5, 6, 7), (5, 6, 7, 8)]"
    by (simp add: upto_rec1)
  then have e: "E = 8 \<and> a = 1 \<longrightarrow>
      ?rows = [(1, 2, 3, 4), (2, 3, 4, 5), (3, 4, 5, 6), (4, 5, 6, 7), (5, 6, 7, 8)]"
    by blast
  show ?thesis
    unfolding r c using e by blast
qed

theorem gen_wenner_spec_witness:
  "nr_electrodes (new_ConfigManager (Some 8) :: unit ConfigManager) = Some 8 \<and>
   (3::int) * 1 + 1 \<le> 8 \<and>
   fst (gen_wenner 1 (new_ConfigManager (Some 8) :: unit ConfigManager)) =
     Inr [(1, 2, 3, 4), (2, 3, 4, 5), (3, 4, 5, 6), (4, 5, 6, 7), (5, 6, 7, 8)]"
proof -
  have h1: "nr_electrodes (new_ConfigManager (Some 8) :: unit ConfigManager) = Some 8"
    by (simp add: new_ConfigManager_def)
  have h2: "(3::int) * 1 + 1 \<le> 8" by simp
  from gen_wenner_spec [OF h1 h2] h1 h2 show ?thesis by blast
qed

subsection \<open>Duplicate removal\<close>

lemma sorted_distinct_remdups_adj: "sorted xs \<Longrightarrow> distinct (remdups_adj xs)"
proof (induction xs rule: remdups_adj.induct)
  case (3 x y xs)
  then show ?case by (auto simp: less_le)
qed simp_all

lemma np_unique_set: "np_unique c = sorted_list_of_set (set c)"
proof -
  have "sorted (np_unique c)" "distinct (np_unique c)" "set (np_unique c) = set c"
    by (simp_all add: np_unique_def sorted_distinct_remdups_adj)
  then show ?thesis
    by (metis sorted_list_of_set.idem_if_sorted_distinct)
qed

text \<open>
  C4: called with an array, \<open>remove_duplicates\<close> returns an array without repeated
  rows that holds exactly the rows of the input, rows being equal when their four
  components are equal position by position; the result depends on the set of input
  rows only, not on their order or multiplicity, and the instance is not touched. The
  rows (1, 2, 3, 4), (1, 2, 3, 4), (5, 6, 7, 8) give the two distinct rows in each of
  their three orders.
\<close>

theorem remove_duplicates_spec:
  "(\<exists>u. remove_duplicates (Some c) s = (Inr (Some u), s) \<and>
        distinct u \<and> set u = set c \<and>
        (\<forall>c'. set c' = set c \<longrightarrow> remove_duplicates (Some c') s = (Inr (Some u), s))) \<and>
   remove_duplicates (Some [(1, 2, 3, 4), (1, 2, 3, 4), (5, 6, 7, 8)]) s
     = (Inr (Some [(1, 2, 3, 4), (5, 6, 7, 8)]), s) \<and>
   remove_duplicates (Some [(1, 2, 3, 4), (5, 6, 7, 8), (1, 2, 3, 4)]) s
     = (Inr (Some [(1, 2, 3, 4), (5, 6, 7, 8)]), s) \<and>
   remove_duplicates (Some [(5, 6, 7, 8), (1, 2, 3, 4), (1, 2, 3, 4)]) s
     = (Inr (Some [(1, 2, 3, 4), (5, 6, 7, 8)]), s)"
proof -
  have r: "\<And>x. remove_duplicates (Some x) s = (Inr (Some (np_unique x)), s)"
    by (simp add: remove_duplicates_def)
  have a: "distinct (np_unique c)" "set (np_unique c) = set c"
    by (simp_all add: np_unique_def sorted_distinct_remdups_adj)
  have b: "\<forall>c'. set c' = set c \<longrightarrow> np_unique c' = np_unique c"
    by (simp add: np_unique_set)
  have e1: "np_unique [(1, 2, 3, 4), (1, 2, 3, 4), (5, 6, 7, 8)] = [(1, 2, 3, 4), (5, 6, 7, 8)]"
    by (simp add: np_unique_def)
  have e2: "np_unique [(1, 2, 3, 4), (5, 6, 7, 8), (1, 2, 3, 4)] = [(1, 2, 3, 4), (5, 6, 7, 8)]"
    by (simp add: np_unique_def)
  have e3: "np_unique [(5, 6, 7, 8), (1, 2, 3, 4), (1, 2, 3, 4)] = [(1, 2, 3, 4), (5, 6, 7, 8)]"
    by (simp add: np_unique_def)
  have g: "\<exists>u. remove_duplicates (Some c) s = (Inr (Some u), s) \<and>
        distinct u \<and> set u = set c \<and>
        (\<forall>c'. set c' = set c \<longrightarrow> remove_duplicates (Some c') s = (Inr (Some u), s))"
    unfolding r using a b by blast
  show ?thesis
    using g unfolding r e1 e2 e3 by blast
qed

theorem remove_duplicates_spec_witness:
  "set [(5, 6, 7, 8), (1, 2, 3, 4), (1, 2, 3, 4)] = set [(1, 2, 3, 4), (5, 6, 7, 8 :: int)] \<and>
   remove_duplicates (Some [(5, 6, 7, 8), (1, 2, 3, 4), (1, 2, 3, 4)])
       (new_ConfigManager None :: unit ConfigManager)
     = remove_duplicates (Some [(1, 2, 3, 4), (5, 6, 7, 8)]) (new_ConfigManager None)"
proof -
  have h: "set [(5, 6, 7, 8), (1, 2, 3, 4), (1, 2, 3, 4)]
             = set [(1, 2, 3, 4), (5, 6, 7, 8 :: int)]"
    by auto
  from remove_duplicates_spec
         [of "[(1, 2, 3, 4), (5, 6, 7, 8)]" "new_ConfigManager None :: unit ConfigManager"]
  obtain u where
    u: "remove_duplicates (Some [(1, 2, 3, 4), (5, 6, 7, 8)])
          (new_ConfigManager None :: unit ConfigManager) = (Inr (Some u), new_ConfigManager None)"
       "\<forall>c'. set c' = set [(1, 2, 3, 4), (5, 6, 7, 8)] \<longrightarrow>
          remove_duplicates (Some c') (new_ConfigManager None :: unit ConfigManager)
            = (Inr (Some u), new_ConfigManager None)"
    by blast
  from u(2) h have
    "remove_duplicates (Some [(5, 6, 7, 8), (1, 2, 3, 4), (1, 2, 3, 4)])
       (new_ConfigManager None :: unit ConfigManager) = (Inr (Some u), new_ConfigManager None)"
    by blast
  with u(1) h show ?thesis by simp
qed

subsection \<open>Storing measurements\<close>

text \<open>
  The loop of \<open>add_measurements\<close> hands out the ids after the counter, one per data
  set, and stores each data set under its id; it leaves the configurations and the
  older measurements alone.
\<close>

lemma store_datasets_fst:
  "fst (store_datasets ds ids s) = ids @ map (\<lambda>k. meas_counter s + 1 + int k) [0..<length ds]"
proof (induction ds arbitrary: ids s)
  case Nil
  then show ?case by simp
next
  case (Cons d ds)
  have "map (\<lambda>k. meas_counter s + 1 + int k) [0..<length (d # ds)]
        = (meas_counter s + 1) # map (\<lambda>k. meas_counter s + 1 + 1 + int k) [0..<length ds]"
    by (simp add: upt_conv_Cons map_Suc_upt [symmetric] del: upt_Suc)
  then show ?case
    by (simp add: Cons.IH get_next_index_def Let_def)
qed

lemma store_datasets_counter:
  "meas_counter (snd (store_datasets ds ids s)) = meas_counter s + int (length ds)"
  by (induction ds arbitrary: ids s) (simp_all add: get_next_index_def Let_def)

lemma store_datasets_configs:
  "configs (snd (store_datasets ds ids s)) = configs s"
  by (induction ds arbitrary: ids s) (simp_all add: get_next_index_def Let_def)

lemma store_datasets_keep:
  "i \<le> meas_counter s \<Longrightarrow> measurements (snd (store_datasets ds ids s)) i = measurements s i"
  by (induction ds arbitrary: ids s) (simp_all add: get_next_index_def Let_def)

lemma store_datasets_new:
  "k < length ds \<Longrightarrow>
   measurements (snd (store_datasets ds ids s)) (meas_counter s + 1 + int k) = Some (ds ! k)"
proof (induction ds arbitrary: ids s k)
  case Nil
  then show ?case by simp
next
  case (Cons d ds)
  show ?case
  proof (cases k)
    case 0
    then show ?thesis
      by (simp add: get_next_index_def Let_def store_datasets_keep)
  next
    case (Suc j)
    with Cons.prems have "j < length ds" by simp
    from Cons.IH [OF this, of "ids @ [meas_counter s + 1]"
        "s\<lparr>meas_counter := meas_counter s + 1,
            measurements := (measurements s)(meas_counter s + 1 \<mapsto> d)\<rparr>"]
    show ?thesis using Suc
      by (simp add: get_next_index_def Let_def add.assoc)
  qed
qed

lemma store_and_return_fst:
  "\<exists>r. fst (store_and_return x s) = Inr r \<and>
       ids_of r = map (\<lambda>k. meas_counter s + 1 + int k) [0..<length (snd x)]"
proof -
  obtain ids s' where st: "store_datasets (snd x) [] s = (ids, s')"
    by (cases "store_datasets (snd x) [] s")
  have ids: "ids = map (\<lambda>k. meas_counter s + 1 + int k) [0..<length (snd x)]"
    using store_datasets_fst [of "snd x" "[]" s] st by simp
  have k: "ids_of (case ids of [i] \<Rightarrow> OneId i | _ \<Rightarrow> IdList ids) = ids"
    by (simp add: ids_of_def split: list.split)
  have "fst (store_and_return x s) = Inr (case ids of [i] \<Rightarrow> OneId i | _ \<Rightarrow> IdList ids)"
    using st by (simp add: store_and_return_def)
  with k have "\<exists>r. fst (store_and_return x s) = Inr r \<and> ids_of r = ids"
    by blast
  then show ?thesis
    unfolding ids .
qed

lemma store_and_return_snd:
  "snd (store_and_return x s) = snd (store_datasets (snd x) [] s)"
  by (simp add: store_and_return_def split: prod.split)

lemma add_measurements_none:
  "configs s = None \<Longrightarrow> add_measurements m s = (Inl NoConfigs, s)"
  by (simp add: add_measurements_def Let_def)

lemma add_measurements_no_shape:
  "configs s = Some st \<Longrightarrow> stored_shape0 st = Inl e \<Longrightarrow> add_measurements m s = (Inl e, s)"
  by (simp add: add_measurements_def Let_def)

lemma add_measurements_rows:
  "configs s = Some st \<Longrightarrow> stored_shape0 st = Inr n \<Longrightarrow> shape1 (atleast_2d m) = n \<Longrightarrow>
   add_measurements m s = store_and_return (atleast_2d m) s"
  by (simp add: add_measurements_def Let_def)

lemma add_measurements_columns:
  "configs s = Some st \<Longrightarrow> stored_shape0 st = Inr n \<Longrightarrow> shape1 (atleast_2d m) \<noteq> n \<Longrightarrow>
   shape0 (atleast_2d m) = n \<Longrightarrow>
   add_measurements m s = store_and_return (transposed (atleast_2d m)) s"
  by (simp add: add_measurements_def Let_def)

lemma add_measurements_mismatch:
  "configs s = Some st \<Longrightarrow> stored_shape0 st = Inr n \<Longrightarrow> shape1 (atleast_2d m) \<noteq> n \<Longrightarrow>
   shape0 (atleast_2d m) \<noteq> n \<Longrightarrow> add_measurements m s = (Inl ShapeMismatch, s)"
  by (simp add: add_measurements_def Let_def)

text \<open>Every call either raises and returns the instance, or is the loop on some array.\<close>

lemma add_measurements_cases:
  "(\<exists>e. add_measurements m s = (Inl e, s)) \<or>
   (\<exists>x. add_measurements m s = store_and_return x s)"
proof (cases "configs s")
  case None
  then show ?thesis by (simp add: add_measurements_none)
next
  case (Some st)
  show ?thesis
  proof (cases "stored_shape0 st")
    case (Inl e)
    with Some show ?thesis by (simp add: add_measurements_no_shape)
  next
    case (Inr n)
    show ?thesis
    proof (cases "shape1 (atleast_2d m) = n")
      case True
      from add_measurements_rows [OF Some Inr True] show ?thesis by blast
    next
      case False
      show ?thesis
      proof (cases "shape0 (atleast_2d m) = n")
        case True
        from add_measurements_columns [OF Some Inr False True] show ?thesis by blast
      next
        case F: False
        from add_measurements_mismatch [OF Some Inr False F] show ?thesis by blast
      qed
    qed
  qed
qed

lemma add_measurements_fail:
  "fst (add_measurements m s) = Inl e \<Longrightarrow> snd (add_measurements m s) = s"
proof -
  assume f: "fst (add_measurements m s) = Inl e"
  from add_measurements_cases [of m s] show ?thesis
  proof
    assume "\<exists>e. add_measurements m s = (Inl e, s)"
    then show ?thesis by auto
  next
    assume "\<exists>x. add_measurements m s = store_and_return x s"
    then obtain x where "add_measurements m s = store_and_return x s" by blast
    with f store_and_return_fst [of x s] show ?thesis by auto
  qed
qed

lemma add_measurements_configs:
  "configs (snd (add_measurements m s)) = configs s"
  using add_measurements_cases [of m s]
  by (auto simp: store_and_return_snd store_datasets_configs)

lemma add_measurements_ok_iff:
  "(\<exists>r. fst (add_measurements m s) = Inr r) \<longleftrightarrow>
   (\<exists>st n. configs s = Some st \<and> stored_shape0 st = Inr n \<and>
        (shape1 (atleast_2d m) = n \<or> shape0 (atleast_2d m) = n))"
proof (cases "configs s")
  case None
  then show ?thesis by (simp add: add_measurements_none)
next
  case (Some st)
  show ?thesis
  proof (cases "stored_shape0 st")
    case (Inl e)
    with Some show ?thesis by (simp add: add_measurements_no_shape)
  next
    case (Inr n)
    show ?thesis
    proof (cases "shape1 (atleast_2d m) = n")
      case True
      with Some Inr store_and_return_fst [of "atleast_2d m" s] show ?thesis
        by (auto simp: add_measurements_rows)
    next
      case False
      show ?thesis
      proof (cases "shape0 (atleast_2d m) = n")
        case True
        with False Some Inr store_and_return_fst [of "transposed (atleast_2d m)" s]
        show ?thesis by (auto simp: add_measurements_columns)
      next
        case F: False
        with False Some Inr show ?thesis by (auto simp: add_measurements_mismatch)
      qed
    qed
  qed
qed

lemma add_measurements_ids:
  assumes "fst (add_measurements m s) = Inr r"
  shows "ids_of r = [meas_counter s + 1..meas_counter (snd (add_measurements m s))]"
proof -
  have up: "\<And>n. map (\<lambda>k. meas_counter s + 1 + int k) [0..<n]
                = [meas_counter s + 1..meas_counter s + int n]"
  proof -
    fix n show "map (\<lambda>k. meas_counter s + 1 + int k) [0..<n]
                = [meas_counter s + 1..meas_counter s + int n]"
    proof (induction n)
      case 0
      then show ?case by simp
    next
      case (Suc n)
      have "[meas_counter s + 1..meas_counter s + int (Suc n)]
            = [meas_counter s + 1..meas_counter s + int n] @ [meas_counter s + 1 + int n]"
        using upto_rec2 [of "meas_counter s + 1" "meas_counter s + int (Suc n)"]
        by (simp add: add.commute add.left_commute)
      with Suc show ?case by simp
    qed
  qed
  from add_measurements_cases [of m s] assms obtain x where
    eq: "add_measurements m s = store_and_return x s"
    by auto
  from store_and_return_fst [of x s] assms
  show ?thesis
    by (simp add: eq store_and_return_snd store_datasets_counter up)
qed

lemma add_measurements_counter_mono:
  "meas_counter s \<le> meas_counter (snd (add_measurements m s))"
  using add_measurements_cases [of m s]
  by (auto simp: store_and_return_snd store_datasets_counter)

text \<open>
  C7: \<open>add_measurements\<close> raises when no configuration is stored. With an array of
  configurations stored, an array whose second dimension is the number of configurations
  is stored row by row; an array whose second dimension differs and whose first dimension
  is the number of configurations is transposed, so that its columns are stored; an
  array of which neither dimension matches raises the shape mismatch. In both failures
  the instance is unchanged, and the call succeeds in exactly the two matching cases,
  the number to match being the first dimension of what is stored.
\<close>

theorem add_measurements_spec:
  "(configs s = None \<longrightarrow> add_measurements m s = (Inl NoConfigs, s)) \<and>
   (\<forall>c. configs s = Some (StoredArray c) \<longrightarrow>
      (shape1 (atleast_2d m) = length c \<longrightarrow>
         (\<exists>r. fst (add_measurements m s) = Inr r) \<and>
         (\<forall>k < shape0 (atleast_2d m).
            measurements (snd (add_measurements m s)) (meas_counter s + 1 + int k)
              = Some (snd (atleast_2d m) ! k))) \<and>
      (shape1 (atleast_2d m) \<noteq> length c \<and> shape0 (atleast_2d m) = length c \<longrightarrow>
         (\<exists>r. fst (add_measurements m s) = Inr r) \<and>
         (\<forall>j < shape1 (atleast_2d m).
            measurements (snd (add_measurements m s)) (meas_counter s + 1 + int j)
              = Some (map (\<lambda>row. row ! j) (snd (atleast_2d m))))) \<and>
      (shape1 (atleast_2d m) \<noteq> length c \<and> shape0 (atleast_2d m) \<noteq> length c \<longrightarrow>
         add_measurements m s = (Inl ShapeMismatch, s))) \<and>
   ((\<exists>r. fst (add_measurements m s) = Inr r) \<longleftrightarrow>
    (\<exists>st n. configs s = Some st \<and> stored_shape0 st = Inr n \<and>
         (shape1 (atleast_2d m) = n \<or> shape0 (atleast_2d m) = n)))"
proof -
  let ?x = "atleast_2d m"
  have sh: "\<And>c. stored_shape0 (StoredArray c) = Inr (length c)"
    by (simp add: stored_shape0_def)
  have 1: "configs s = None \<longrightarrow> add_measurements m s = (Inl NoConfigs, s)"
    by (simp add: add_measurements_none)
  have 2: "\<forall>c. configs s = Some (StoredArray c) \<longrightarrow>
      (shape1 ?x = length c \<longrightarrow>
         (\<exists>r. fst (add_measurements m s) = Inr r) \<and>
         (\<forall>k < shape0 ?x.
            measurements (snd (add_measurements m s)) (meas_counter s + 1 + int k)
              = Some (snd ?x ! k)))"
  proof (intro allI impI)
    fix c assume c: "configs s = Some (StoredArray c)" and d: "shape1 ?x = length c"
    have eq: "add_measurements m s = store_and_return ?x s"
      by (rule add_measurements_rows [OF c sh d])
    have a: "\<exists>r. fst (add_measurements m s) = Inr r"
      unfolding add_measurements_ok_iff using c sh d by blast
    have b: "\<forall>k < shape0 ?x.
            measurements (snd (add_measurements m s)) (meas_counter s + 1 + int k)
              = Some (snd ?x ! k)"
      by (simp add: eq store_and_return_snd shape0_def store_datasets_new)
    from a b show "(\<exists>r. fst (add_measurements m s) = Inr r) \<and>
         (\<forall>k < shape0 ?x.
            measurements (snd (add_measurements m s)) (meas_counter s + 1 + int k)
              = Some (snd ?x ! k))" ..
  qed
  have 3: "\<forall>c. configs s = Some (StoredArray c) \<longrightarrow>
      (shape1 ?x \<noteq> length c \<and> shape0 ?x = length c \<longrightarrow>
         (\<exists>r. fst (add_measurements m s) = Inr r) \<and>
         (\<forall>j < shape1 ?x.
            measurements (snd (add_measurements m s)) (meas_counter s + 1 + int j)
              = Some (map (\<lambda>row. row ! j) (snd ?x))))"
  proof (intro allI impI)
    fix c assume c: "configs s = Some (StoredArray c)"
      and d: "shape1 ?x \<noteq> length c \<and> shape0 ?x = length c"
    have eq: "add_measurements m s = store_and_return (transposed ?x) s"
      by (rule add_measurements_columns [OF c sh]) (simp_all add: d)
    have a: "\<exists>r. fst (add_measurements m s) = Inr r"
      unfolding add_measurements_ok_iff using c sh d by blast
    have b: "\<forall>j < shape1 ?x.
            measurements (snd (add_measurements m s)) (meas_counter s + 1 + int j)
              = Some (map (\<lambda>row. row ! j) (snd ?x))"
      by (simp add: eq store_and_return_snd shape1_def store_datasets_new transposed_def)
    from a b show "(\<exists>r. fst (add_measurements m s) = Inr r) \<and>
         (\<forall>j < shape1 ?x.
            measurements (snd (add_measurements m s)) (meas_counter s + 1 + int j)
              = Some (map (\<lambda>row. row ! j) (snd ?x)))" ..
  qed
  have 4: "\<forall>c. configs s = Some (StoredArray c) \<longrightarrow>
      (shape1 ?x \<noteq> length c \<and> shape0 ?x \<noteq> length c \<longrightarrow>
         add_measurements m s = (Inl ShapeMismatch, s))"
  proof (intro allI impI)
    fix c assume c: "configs s = Some (StoredArray c)"
      and d: "shape1 ?x \<noteq> length c \<and> shape0 ?x \<noteq> length c"
    show "add_measurements m s = (Inl ShapeMismatch, s)"
      by (rule add_measurements_mismatch [OF c sh]) (simp_all add: d)
  qed
  note 5 = add_measurements_ok_iff [of m s]
  from 1 2 3 4 5 show ?thesis by blast
qed

theorem add_measurements_spec_witness:
  "configs ((new_ConfigManager None :: int ConfigManager)
             \<lparr>configs := Some (StoredArray [(1, 2, 3, 4), (2, 3, 4, 5)])\<rparr>)
     = Some (StoredArray [(1, 2, 3, 4), (2, 3, 4, 5)]) \<and>
   shape1 (atleast_2d (Arr2 3 [[10, 11, 12], [20, 21, 22 :: int]]))
     \<noteq> length [(1, 2, 3, 4), (2, 3, 4, 5 :: int)] \<and>
   shape0 (atleast_2d (Arr2 3 [[10, 11, 12], [20, 21, 22 :: int]]))
     = length [(1, 2, 3, 4), (2, 3, 4, 5 :: int)] \<and>
   1 < shape1 (atleast_2d (Arr2 3 [[10, 11, 12], [20, 21, 22 :: int]])) \<and>
   measurements
     (snd (add_measurements (Arr2 3 [[10, 11, 12], [20, 21, 22]])
            ((new_ConfigManager None :: int ConfigManager)
               \<lparr>configs := Some (StoredArray [(1, 2, 3, 4), (2, 3, 4, 5)])\<rparr>))) 1
     = Some [11, 21]"
proof -
  let ?s = "(new_ConfigManager None :: int ConfigManager)
             \<lparr>configs := Some (StoredArray [(1, 2, 3, 4), (2, 3, 4, 5)])\<rparr>"
  let ?m = "Arr2 3 [[10, 11, 12], [20, 21, 22 :: int]]"
  have h1: "configs ?s = Some (StoredArray [(1, 2, 3, 4), (2, 3, 4, 5)])"
    by simp
  have h2: "shape1 (atleast_2d ?m) \<noteq> length [(1, 2, 3, 4), (2, 3, 4, 5 :: int)]"
    by (simp add: atleast_2d_def shape1_def)
  have h3: "shape0 (atleast_2d ?m) = length [(1, 2, 3, 4), (2, 3, 4, 5 :: int)]"
    by (simp add: atleast_2d_def shape0_def)
  have h4: "1 < shape1 (atleast_2d ?m)"
    by (simp add: atleast_2d_def shape1_def)
  from add_measurements_spec [of ?s ?m] h1 h2 h3 have
    "\<forall>j < shape1 (atleast_2d ?m).
       measurements (snd (add_measurements ?m ?s)) (meas_counter ?s + 1 + int j)
         = Some (map (\<lambda>row. row ! j) (snd (atleast_2d ?m)))"
    by blast
  with h4 have "measurements (snd (add_measurements ?m ?s)) (meas_counter ?s + 1 + int 1)
         = Some (map (\<lambda>row. row ! 1) (snd (atleast_2d ?m)))"
    by blast
  then have "measurements (snd (add_measurements ?m ?s)) 1 = Some [11, 21]"
    by (simp add: new_ConfigManager_def atleast_2d_def)
  with h1 h2 h3 h4 show ?thesis by blast
qed

subsection \<open>Measurement ids\<close>

lemma upto_append_next:
  "a \<le> b + 1 \<Longrightarrow> b \<le> c \<Longrightarrow> [a..b] @ [b + 1..c] = [a..(c::int)]"
proof (cases "a \<le> b")
  case True
  assume "b \<le> c"
  with True show ?thesis by (simp add: upto_split2 [of a b c])
next
  case False
  assume "a \<le> b + 1"
  with False have "a = b + 1" by simp
  then show ?thesis by simp
qed

lemma add_all_counter_mono:
  "meas_counter s \<le> meas_counter (snd (add_all ms s))"
proof (induction ms arbitrary: s)
  case Nil
  then show ?case by simp
next
  case (Cons m ms)
  obtain r1 s1 where a: "add_measurements m s = (r1, s1)"
    by (cases "add_measurements m s")
  have m1: "meas_counter s \<le> meas_counter s1"
    using add_measurements_counter_mono [of s m] a by simp
  obtain r2 s2 where b: "add_all ms s1 = (r2, s2)"
    by (cases "add_all ms s1")
  have m2: "meas_counter s1 \<le> meas_counter s2"
    using Cons.IH [of s1] b by simp
  show ?case
    using a b m1 m2 by (simp split: sum.split)
qed

lemma add_all_ids:
  "fst (add_all ms s) = Inr ids \<Longrightarrow>
   ids = [meas_counter s + 1..meas_counter (snd (add_all ms s))]"
proof (induction ms arbitrary: s ids)
  case Nil
  then show ?case by simp
next
  case (Cons m ms)
  obtain r1 s1 where a: "add_measurements m s = (r1, s1)"
    by (cases "add_measurements m s")
  obtain r2 s2 where b: "add_all ms s1 = (r2, s2)"
    by (cases "add_all ms s1")
  from Cons.prems a b obtain r ids' where
    r: "r1 = Inr r" and i: "r2 = Inr ids'" and ids: "ids = ids_of r @ ids'"
    by (auto split: sum.splits)
  have e1: "ids_of r = [meas_counter s + 1..meas_counter s1]"
    using add_measurements_ids [of m s r] a r by simp
  have e2: "ids' = [meas_counter s1 + 1..meas_counter s2]"
    using Cons.IH [of s1 ids'] b i by simp
  have m1: "meas_counter s \<le> meas_counter s1"
    using add_measurements_counter_mono [of s m] a by simp
  have m2: "meas_counter s1 \<le> meas_counter s2"
    using add_all_counter_mono [of s1 ms] b by simp
  have "ids = [meas_counter s + 1..meas_counter s2]"
    unfolding ids e1 e2 using m1 m2 by (intro upto_append_next) simp_all
  then show ?case
    using a b r i by simp
qed

text \<open>
  C6: the ids assigned by a sequence of successful \<open>add_measurements\<close> calls on one
  instance are the consecutive integers after the counter the sequence started with:
  they are strictly increasing across the whole sequence, no id occurs twice, each is
  greater than the starting counter (so greater than every id assigned before), the
  counter ends at the last id, and on an instance whose counter is still the initial
  one the first id is 0.
\<close>

theorem measurement_ids_increasing:
  assumes "fst (add_all ms s) = Inr ids"
  shows "ids = [meas_counter s + 1..meas_counter s + int (length ids)] \<and>
         sorted_wrt (<) ids \<and> distinct ids \<and>
         (\<forall>i \<in> set ids. meas_counter s < i) \<and>
         meas_counter (snd (add_all ms s)) = meas_counter s + int (length ids) \<and>
         (meas_counter s = meas_counter (new_ConfigManager n) \<and> ids \<noteq> [] \<longrightarrow> hd ids = 0)"
proof -
  let ?c = "meas_counter s" and ?c' = "meas_counter (snd (add_all ms s))"
  have ids: "ids = [?c + 1..?c']"
    using add_all_ids [OF assms] .
  have mono: "?c \<le> ?c'"
    by (rule add_all_counter_mono)
  have len: "int (length ids) = ?c' - ?c"
    using mono by (subst ids) simp
  then have c': "?c' = ?c + int (length ids)"
    by simp
  have 1: "ids = [?c + 1..?c + int (length ids)]"
    using ids c' by simp
  have 2: "sorted_wrt (<) ids" "distinct ids"
    by (subst ids, simp)+
  have 3: "\<forall>i \<in> set ids. ?c < i"
    by (subst ids) simp
  have 4: "?c = meas_counter (new_ConfigManager n) \<and> ids \<noteq> [] \<longrightarrow> hd ids = 0"
  proof
    assume h: "?c = meas_counter (new_ConfigManager n) \<and> ids \<noteq> []"
    then have "?c = - 1" by (simp add: new_ConfigManager_def)
    moreover from h ids have "?c + 1 \<le> ?c'" by (metis upto_Nil not_le)
    ultimately show "hd ids = 0"
      by (subst ids) (simp add: upto_rec1)
  qed
  from 1 2 3 c' 4 show ?thesis by blast
qed

theorem measurement_ids_increasing_witness:
  "fst (add_all [Arr1 [10, 20], Arr2 2 [[1, 2], [3, 4], [5, 6 :: int]]]
         ((new_ConfigManager None :: int ConfigManager)
            \<lparr>configs := Some (StoredArray [(1, 2, 3, 4), (2, 3, 4, 5)])\<rparr>))
     = Inr [0, 1, 2, 3] \<and>
   meas_counter (snd (add_all [Arr1 [10, 20], Arr2 2 [[1, 2], [3, 4], [5, 6 :: int]]]
         ((new_ConfigManager None :: int ConfigManager)
            \<lparr>configs := Some (StoredArray [(1, 2, 3, 4), (2, 3, 4, 5)])\<rparr>))) = 3"
proof -
  let ?s = "(new_ConfigManager None :: int ConfigManager)
             \<lparr>configs := Some (StoredArray [(1, 2, 3, 4), (2, 3, 4, 5)])\<rparr>"
  let ?ms = "[Arr1 [10, 20], Arr2 2 [[1, 2], [3, 4], [5, 6 :: int]]]"
  have h: "fst (add_all ?ms ?s) = Inr [0, 1, 2, 3]"
    by (simp add: add_measurements_def stored_shape0_def atleast_2d_def shape0_def shape1_def
        store_and_return_def get_next_index_def new_ConfigManager_def ids_of_def Let_def)
  from measurement_ids_increasing [OF h] have
    "meas_counter (snd (add_all ?ms ?s)) = meas_counter ?s + int (length [0, 1, 2, 3 :: int])"
    by blast
  then have "meas_counter (snd (add_all ?ms ?s)) = 3"
    by (simp add: new_ConfigManager_def)
  with h show ?thesis by blast
qed

subsection \<open>Failing imports\<close>

text \<open>
  The second \<open>add_measurements\<close> of \<open>load_crmod_volt\<close> succeeds when the first did:
  both columns have the length of the table, and the first call leaves the
  configurations alone.
\<close>

lemma second_add_succeeds:
  assumes "add_measurements (Arr1 (further_column j meas)) s = (Inr r1, s1)"
  shows "\<exists>r2 s2. add_measurements (Arr1 (further_column k meas)) s1 = (Inr r2, s2)"
proof -
  let ?a = "Arr1 (further_column j meas)" and ?b = "Arr1 (further_column k meas)"
  from assms have "\<exists>r. fst (add_measurements ?a s) = Inr r" by simp
  then obtain st n where c: "configs s = Some st" "stored_shape0 st = Inr n"
    "shape1 (atleast_2d ?a) = n \<or> shape0 (atleast_2d ?a) = n"
    unfolding add_measurements_ok_iff by blast
  have "configs s1 = configs s"
    using add_measurements_configs [of ?a s] assms by simp
  with c have "\<exists>st n. configs s1 = Some st \<and> stored_shape0 st = Inr n \<and>
        (shape1 (atleast_2d ?b) = n \<or> shape0 (atleast_2d ?b) = n)"
    by (simp add: atleast_2d_def shape0_def shape1_def further_column_def)
  then have "\<exists>r. fst (add_measurements ?b s1) = Inr r"
    unfolding add_measurements_ok_iff .
  then show ?thesis
    by (cases "add_measurements ?b s1") auto
qed

lemma add_data_result:
  "(\<exists>e. add_data further meas s = (Inl e, s)) \<or>
   (\<exists>s'. add_data further meas s = (Inl IndexError, s')) \<or>
   (\<exists>r s'. add_data further meas s = (Inr r, s'))"
proof (cases "further < 1")
  case True
  then show ?thesis by (simp add: add_data_def)
next
  case False
  let ?mag = "Arr1 (further_column 0 meas)"
  obtain r1 s1 where a: "add_measurements ?mag s = (r1, s1)"
    by (cases "add_measurements ?mag s")
  show ?thesis
  proof (cases r1)
    case (Inl e)
    with a add_measurements_fail [of ?mag s e] have "s1 = s" by simp
    with a Inl False show ?thesis by (simp add: add_data_def)
  next
    case (Inr cid_mag)
    show ?thesis
    proof (cases "further < 2")
      case True
      with a Inr False show ?thesis by (simp add: add_data_def)
    next
      case F2: False
      from second_add_succeeds [of 0 meas s cid_mag s1 1] a Inr
      obtain r2 s2 where "add_measurements (Arr1 (further_column 1 meas)) s1 = (Inr r2, s2)"
        by auto
      with a Inr False F2 show ?thesis by (simp add: add_data_def)
    qed
  qed
qed

lemma add_data_fail:
  "fst (add_data further meas s) = Inl e \<Longrightarrow> e \<noteq> IndexError \<Longrightarrow>
   snd (add_data further meas s) = s"
  using add_data_result [of further meas s] by auto

text \<open>
  On configurations just adopted from the table the first \<open>add_measurements\<close> succeeds,
  so that only a missing column can make the method raise from there.
\<close>

lemma add_data_adopted:
  assumes "configs s = Some (StoredArray c)" and "length c = length meas"
  shows "(\<exists>s'. add_data further meas s = (Inl IndexError, s')) \<or>
         (\<exists>r s'. add_data further meas s = (Inr r, s'))"
proof (cases "further < 1")
  case True
  then show ?thesis by (simp add: add_data_def)
next
  case False
  let ?mag = "Arr1 (further_column 0 meas)"
  have "\<exists>r. fst (add_measurements ?mag s) = Inr r"
    unfolding add_measurements_ok_iff using assms
    by (simp add: atleast_2d_def shape1_def stored_shape0_def further_column_def)
  then obtain r1 s1 where a: "add_measurements ?mag s = (Inr r1, s1)"
    by (cases "add_measurements ?mag s") auto
  show ?thesis
  proof (cases "further < 2")
    case True
    with a False show ?thesis by (simp add: add_data_def)
  next
    case F2: False
    from second_add_succeeds [of 0 meas s r1 s1 1] a
    obtain r2 s2 where "add_measurements (Arr1 (further_column 1 meas)) s1 = (Inr r2, s2)"
      by auto
    with a False F2 show ?thesis by (simp add: add_data_def)
  qed
qed

lemma load_crmod_volt_fail:
  assumes h: "fst (load_crmod_volt g s) = Inl e" and ne: "e \<noteq> IndexError"
  shows "snd (load_crmod_volt g s) = s"
proof -
  let ?further = "fst (snd g)" and ?meas = "snd (snd g)"
  let ?ABMN = "crmod_to_abmn (merged_columns ?meas)"
  show ?thesis
  proof (cases "fst g \<noteq> int (loadtxt_shape0 (2 + ?further) ?meas) \<or> \<not> loadtxt_is_2d ?meas")
    case True
    then show ?thesis by (auto simp: load_crmod_volt_def Let_def)
  next
    case ok: False
    show ?thesis
    proof (cases "configs s")
      case None
      let ?s1 = "s\<lparr>configs := Some (StoredArray ?ABMN)\<rparr>"
      from ok None have eq: "load_crmod_volt g s = add_data ?further ?meas ?s1"
        by (simp add: load_crmod_volt_def Let_def)
      have "(\<exists>s'. add_data ?further ?meas ?s1 = (Inl IndexError, s')) \<or>
            (\<exists>r s'. add_data ?further ?meas ?s1 = (Inr r, s'))"
        by (rule add_data_adopted [of _ ?ABMN])
          (simp_all add: crmod_to_abmn_def merged_columns_def)
      with h ne eq show ?thesis by auto
    next
      case (Some st)
      show ?thesis
      proof (cases "np_all_eq ?ABMN st")
        case (Inl e2)
        with ok Some show ?thesis by (simp add: load_crmod_volt_def Let_def)
      next
        case (Inr same)
        show ?thesis
        proof (cases same)
          case True
          with ok Some Inr have eq: "load_crmod_volt g s = add_data ?further ?meas s"
            by (simp add: load_crmod_volt_def Let_def)
          with h ne add_data_fail [of ?further ?meas s e] show ?thesis by simp
        next
          case False
          with ok Some Inr show ?thesis by (simp add: load_crmod_volt_def Let_def)
        qed
      qed
    qed
  qed
qed

text \<open>
  C5: an import that fails because the declared number of rows is not the number of
  rows read, in either loader, or because the rows decoded by \<open>load_crmod_volt\<close> do
  not compare equal to the stored configurations, leaves the instance, configurations
  and measurements included, what it was before the call. Whenever \<open>load_crmod_config\<close>
  raises the instance is unchanged, and so it is whenever \<open>load_crmod_volt\<close> raises
  anything but the error of an index out of range.
\<close>

theorem failing_import_keeps_state:
  "(fst f \<noteq> int (loadtxt_shape0 (2 + fst (snd f)) (snd (snd f))) \<longrightarrow>
      load_crmod_config f s = (Inl CountMismatch, s)) \<and>
   (fst g \<noteq> int (loadtxt_shape0 (2 + fst (snd g)) (snd (snd g))) \<longrightarrow>
      load_crmod_volt g s = (Inl CountMismatch, s)) \<and>
   (\<forall>st. fst g = int (loadtxt_shape0 (2 + fst (snd g)) (snd (snd g))) \<and>
         loadtxt_is_2d (snd (snd g)) \<and> configs s = Some st \<and>
         np_all_eq (crmod_to_abmn (merged_columns (snd (snd g)))) st \<noteq> Inr True \<longrightarrow>
      load_crmod_volt g s = (Inl ConfigMismatch, s) \<or>
      load_crmod_volt g s = (Inl ValueError, s)) \<and>
   (fst (load_crmod_config f s) = Inl e \<longrightarrow> snd (load_crmod_config f s) = s) \<and>
   (fst (load_crmod_volt g s) = Inl e' \<and> e' \<noteq> IndexError \<longrightarrow>
      snd (load_crmod_volt g s) = s)"
proof -
  have 1: "fst f \<noteq> int (loadtxt_shape0 (2 + fst (snd f)) (snd (snd f))) \<longrightarrow>
      load_crmod_config f s = (Inl CountMismatch, s)"
    by (simp add: load_crmod_config_def Let_def)
  have 2: "fst g \<noteq> int (loadtxt_shape0 (2 + fst (snd g)) (snd (snd g))) \<longrightarrow>
      load_crmod_volt g s = (Inl CountMismatch, s)"
    by (simp add: load_crmod_volt_def Let_def)
  have 3: "\<forall>st. fst g = int (loadtxt_shape0 (2 + fst (snd g)) (snd (snd g))) \<and>
         loadtxt_is_2d (snd (snd g)) \<and> configs s = Some st \<and>
         np_all_eq (crmod_to_abmn (merged_columns (snd (snd g)))) st \<noteq> Inr True \<longrightarrow>
      load_crmod_volt g s = (Inl ConfigMismatch, s) \<or>
      load_crmod_volt g s = (Inl ValueError, s)"
  proof (intro allI impI)
    fix st
    let ?cmp = "np_all_eq (crmod_to_abmn (merged_columns (snd (snd g)))) st"
    assume a: "fst g = int (loadtxt_shape0 (2 + fst (snd g)) (snd (snd g))) \<and>
         loadtxt_is_2d (snd (snd g)) \<and> configs s = Some st \<and> ?cmp \<noteq> Inr True"
    have v: "\<And>e. ?cmp = Inl e \<Longrightarrow> e = ValueError"
      by (auto simp: np_all_eq_def Let_def split: stored.splits if_splits)
    show "load_crmod_volt g s = (Inl ConfigMismatch, s) \<or>
          load_crmod_volt g s = (Inl ValueError, s)"
    proof (cases ?cmp)
      case (Inl e2)
      with v have "?cmp = Inl ValueError" by simp
      with a show ?thesis by (simp add: load_crmod_volt_def Let_def)
    next
      case (Inr same)
      with a have "\<not> same" by auto
      with a Inr show ?thesis by (simp add: load_crmod_volt_def Let_def)
    qed
  qed
  have 4: "fst (load_crmod_config f s) = Inl e \<longrightarrow> snd (load_crmod_config f s) = s"
    by (simp add: load_crmod_config_def Let_def)
  have 5: "fst (load_crmod_volt g s) = Inl e' \<and> e' \<noteq> IndexError \<longrightarrow>
      snd (load_crmod_volt g s) = s"
    using load_crmod_volt_fail [of g s e'] by blast
  from 1 2 3 4 5 show ?thesis by blast
qed

theorem failing_import_keeps_state_witness:
  "(3 :: int) \<noteq> int (loadtxt_shape0 (2 + 0)
       [(10002 :: int, 30004 :: int, [] :: int list), (20003, 40005, [])]) \<and>
   load_crmod_config (3, 0, [(10002, 30004, []), (20003, 40005, [])])
       ((new_ConfigManager None :: int ConfigManager)
          \<lparr>configs := Some (StoredArray [(1, 2, 3, 4), (2, 3, 4, 5)])\<rparr>)
     = (Inl CountMismatch,
        (new_ConfigManager None)\<lparr>configs := Some (StoredArray [(1, 2, 3, 4), (2, 3, 4, 5)])\<rparr>) \<and>
   load_crmod_volt (3, 2, [(10002, 30004, [5, 0]), (20003, 40005, [6, 0])])
       ((new_ConfigManager None :: int ConfigManager)
          \<lparr>configs := Some (StoredArray [(1, 2, 3, 4), (2, 3, 4, 5)])\<rparr>)
     = (Inl CountMismatch,
        (new_ConfigManager None)\<lparr>configs := Some (StoredArray [(1, 2, 3, 4), (2, 3, 4, 5)])\<rparr>) \<and>
   fst (load_crmod_volt (2, 2, [(10002, 30004, [5, 0]), (20003, 40005, [6, 0])])
       ((new_ConfigManager None :: int ConfigManager)
          \<lparr>configs := Some (StoredArray [(1, 2, 3, 4), (2, 3, 4, 5)])\<rparr>))
     = Inl ConfigMismatch \<and>
   snd (load_crmod_volt (2, 2, [(10002, 30004, [5, 0]), (20003, 40005, [6, 0])])
       ((new_ConfigManager None :: int ConfigManager)
          \<lparr>configs := Some (StoredArray [(1, 2, 3, 4), (2, 3, 4, 5)])\<rparr>))
     = (new_ConfigManager None)\<lparr>configs := Some (StoredArray [(1, 2, 3, 4), (2, 3, 4, 5)])\<rparr>"
proof -
  let ?s = "(new_ConfigManager None :: int ConfigManager)
             \<lparr>configs := Some (StoredArray [(1, 2, 3, 4), (2, 3, 4, 5)])\<rparr>"
  let ?f = "(3 :: int, 0 :: nat, [(10002 :: int, 30004 :: int, []), (20003, 40005, [] :: int list)])"
  let ?g = "(3 :: int, 2 :: nat, [(10002 :: int, 30004 :: int, [5, 0]), (20003, 40005, [6, 0 :: int])])"
  let ?g' = "(2 :: int, 2 :: nat, [(10002 :: int, 30004 :: int, [5, 0]), (20003, 40005, [6, 0 :: int])])"
  have h1: "fst ?f \<noteq> int (loadtxt_shape0 (2 + fst (snd ?f)) (snd (snd ?f)))"
    by (simp add: loadtxt_shape0_def)
  have h2: "fst ?g \<noteq> int (loadtxt_shape0 (2 + fst (snd ?g)) (snd (snd ?g)))"
    by (simp add: loadtxt_shape0_def)
  note t = failing_import_keeps_state [of ?f ?s ?g CountMismatch CountMismatch]
  have c1: "load_crmod_config ?f ?s = (Inl CountMismatch, ?s)"
    by (rule t [THEN conjunct1, rule_format, OF h1])
  have c2: "load_crmod_volt ?g ?s = (Inl CountMismatch, ?s)"
    by (rule t [THEN conjunct2, THEN conjunct1, rule_format, OF h2])
  have h3: "fst (load_crmod_volt ?g' ?s) = Inl ConfigMismatch"
    by (simp add: load_crmod_volt_def loadtxt_shape0_def loadtxt_is_2d_def crmod_to_abmn_def
        merged_columns_def crmod_split_def np_all_eq_def stored_rows_def Let_def)
  have h4: "ConfigMismatch \<noteq> IndexError"
    by simp
  note t' = failing_import_keeps_state [of ?f ?s ?g' CountMismatch ConfigMismatch]
  have c3: "snd (load_crmod_volt ?g' ?s) = ?s"
    by (rule t' [THEN conjunct2, THEN conjunct2, THEN conjunct2, THEN conjunct2,
          rule_format, OF conjI [OF h3 h4]])
  have h1': "(3 :: int) \<noteq> int (loadtxt_shape0 (2 + 0)
       [(10002 :: int, 30004 :: int, [] :: int list), (20003, 40005, [])])"
    using h1 by simp
  show ?thesis
    by (intro conjI) (rule h1', rule c1, rule c2, rule h3, rule c3)
qed

text \<open>
  A table without the column of the phases is a different failure: the configurations
  are adopted and the magnitudes stored before the missing column is taken.
\<close>

lemma load_crmod_volt_missing_phase:
  "fst (load_crmod_volt (2, 1, [(10002, 30004, [5]), (20003, 40005, [6])])
         (new_ConfigManager None :: int ConfigManager)) = Inl IndexError \<and>
   configs (snd (load_crmod_volt (2, 1, [(10002, 30004, [5]), (20003, 40005, [6])])
         (new_ConfigManager None :: int ConfigManager)))
     = Some (StoredArray [(2, 1, 4, 3), (3, 2, 5, 4)]) \<and>
   measurements (snd (load_crmod_volt (2, 1, [(10002, 30004, [5]), (20003, 40005, [6])])
         (new_ConfigManager None :: int ConfigManager))) 0 = Some [5, 6]"
  by (simp add: load_crmod_volt_def loadtxt_shape0_def loadtxt_is_2d_def crmod_to_abmn_def
      merged_columns_def crmod_split_def add_data_def further_column_def add_measurements_def
      stored_shape0_def atleast_2d_def shape0_def shape1_def store_and_return_def
      get_next_index_def new_ConfigManager_def Let_def)

subsection \<open>Normal and reciprocal configurations\<close>

lemma rec_entry_aligned:
  assumes srt: "srt = map sort_halves orig"
    and idx: "index < length orig" and nrm: "is_normal (orig ! index)"
    and ir: "index_rec = filter (\<lambda>j. is_rec_of (srt ! j) (srt ! index)) [0..<length srt]"
  shows "(index_rec = [] \<longrightarrow> aligned orig (Row (orig ! index)) Nan4) \<and>
         (index_rec \<noteq> [] \<longrightarrow> aligned orig (Row (orig ! index)) (Row (orig ! (index_rec ! 0))))"
proof (intro conjI impI)
  assume e: "index_rec = []"
  have "\<forall>q' \<in> set orig. \<not> is_rec_of (sort_halves q') (sort_halves (orig ! index))"
  proof
    fix q' assume "q' \<in> set orig"
    then obtain j where j: "j < length orig" "q' = orig ! j"
      by (auto simp: in_set_conv_nth)
    from e ir have "\<forall>j \<in> set [0..<length srt]. \<not> is_rec_of (srt ! j) (srt ! index)"
      by (simp add: filter_empty_conv)
    with j srt idx show "\<not> is_rec_of (sort_halves q') (sort_halves (orig ! index))"
      by simp
  qed
  with idx nrm show "aligned orig (Row (orig ! index)) Nan4"
    by simp
next
  assume ne: "index_rec \<noteq> []"
  then have "index_rec ! 0 \<in> set index_rec"
    by simp
  with ir have j: "index_rec ! 0 < length srt"
    "is_rec_of (srt ! (index_rec ! 0)) (srt ! index)"
    by auto
  with srt idx nrm show "aligned orig (Row (orig ! index)) (Row (orig ! (index_rec ! 0)))"
    by simp
qed

lemma normal_loop_inv:
  assumes srt: "srt = map sort_halves orig"
  shows "(\<forall>i \<in> set idxs. i < length orig \<and> is_normal (orig ! i)) \<Longrightarrow>
         list_all2 (aligned orig) normal reciprocal \<Longrightarrow>
         (case normal_loop True orig srt idxs (used, normal, reciprocal, dups) of
            (used', normal', reciprocal', dups') \<Rightarrow>
              list_all2 (aligned orig) normal' reciprocal' \<and>
              set used \<union> set idxs \<subseteq> set used')"
proof (induction idxs arbitrary: used normal reciprocal dups)
  case Nil
  then show ?case by simp
next
  case (Cons index rest)
  let ?ir = "filter (\<lambda>j. is_rec_of (srt ! j) (srt ! index)) [0..<length srt]"
  from Cons.prems(1) have idx: "index < length orig" and nrm: "is_normal (orig ! index)"
    and rest: "\<forall>i \<in> set rest. i < length orig \<and> is_normal (orig ! i)"
    by simp_all
  note al = rec_entry_aligned [OF srt idx nrm refl]
  show ?case
  proof (cases "?ir = []")
    case True
    have step: "normal_loop True orig srt (index # rest) (used, normal, reciprocal, dups)
      = normal_loop True orig srt rest
          (used @ [index], normal @ [Row (orig ! index)], reciprocal @ [Nan4], dups)"
      using True by (simp add: Let_def)
    have l: "list_all2 (aligned orig) (normal @ [Row (orig ! index)]) (reciprocal @ [Nan4])"
      using Cons.prems(2) al True by (intro list_all2_appendI) simp_all
    from Cons.IH [OF rest l, of "used @ [index]" dups]
    show ?thesis unfolding step by (auto split: prod.splits)
  next
    case False
    let ?e = "Row (orig ! (?ir ! 0))"
    have l: "list_all2 (aligned orig) (normal @ [Row (orig ! index)]) (reciprocal @ [?e])"
      using Cons.prems(2) al False by (intro list_all2_appendI) simp_all
    show ?thesis
    proof (cases "length ?ir = 1")
      case True
      have step: "normal_loop True orig srt (index # rest) (used, normal, reciprocal, dups)
        = normal_loop True orig srt rest
            ((used @ [index]) @ [?ir ! 0], normal @ [Row (orig ! index)],
             reciprocal @ [?e], dups)"
        using True False by (simp add: Let_def)
      from Cons.IH [OF rest l, of "(used @ [index]) @ [?ir ! 0]" dups]
      show ?thesis unfolding step by (auto split: prod.splits)
    next
      case F2: False
      have step: "normal_loop True orig srt (index # rest) (used, normal, reciprocal, dups)
        = normal_loop True orig srt rest
            ((used @ [index]) @ ?ir, normal @ [Row (orig ! index)],
             reciprocal @ [?e], dups @ tl ?ir)"
        using F2 False by (simp add: Let_def)
      from Cons.IH [OF rest l, of "(used @ [index]) @ ?ir" "dups @ tl ?ir"]
      show ?thesis unfolding step by (auto split: prod.splits)
    qed
  qed
qed

lemma reciprocal_only_loop_inv:
  "(\<forall>i \<in> set idxs. i < length orig \<and> \<not> is_normal (orig ! i)) \<Longrightarrow>
   list_all2 (aligned orig) normal reciprocal \<Longrightarrow>
   (case reciprocal_only_loop True orig idxs (normal, reciprocal) of
      (normal', reciprocal') \<Rightarrow> list_all2 (aligned orig) normal' reciprocal')"
proof (induction idxs arbitrary: normal reciprocal)
  case Nil
  then show ?case by simp
next
  case (Cons index rest)
  from Cons.prems(1) have idx: "index < length orig" and nrm: "\<not> is_normal (orig ! index)"
    and rest: "\<forall>i \<in> set rest. i < length orig \<and> \<not> is_normal (orig ! i)"
    by simp_all
  have l: "list_all2 (aligned orig) (normal @ [Nan4]) (reciprocal @ [Row (orig ! index)])"
    using Cons.prems(2) idx nrm by (intro list_all2_appendI) simp_all
  from Cons.IH [OF rest l] show ?case by simp
qed

lemma split_padded_list_all2:
  assumes ord: "\<forall>xs. set (set_order xs) = set xs"
    and c: "configs s = Some (StoredArray orig)"
  shows "\<exists>normal reciprocal.
           split_into_normal_and_reciprocal set_order True s = Inr (normal, reciprocal) \<and>
           list_all2 (aligned orig) normal reciprocal"
proof -
  let ?srt = "map sort_halves orig"
  let ?in = "filter (\<lambda>i. fst (?srt ! i) < fst (snd (snd (?srt ! i)))) [0..<length ?srt]"
  obtain used normal reciprocal dups where
    nl: "normal_loop True orig ?srt ?in ([], [], [], []) = (used, normal, reciprocal, dups)"
    by (cases "normal_loop True orig ?srt ?in ([], [], [], [])") auto
  have p1: "\<forall>i \<in> set ?in. i < length orig \<and> is_normal (orig ! i)"
    by auto
  have "list_all2 (aligned orig) [] []"
    by simp
  from normal_loop_inv [OF refl p1 this, of "[]" "[]"] nl
  have inv: "list_all2 (aligned orig) normal reciprocal" and sub: "set ?in \<subseteq> set used"
    by simp_all
  let ?ro = "set_order (filter (\<lambda>i. i \<notin> set used) [0..<length ?srt])"
  have p2: "\<forall>i \<in> set ?ro. i < length orig \<and> \<not> is_normal (orig ! i)"
  proof
    fix i assume "i \<in> set ?ro"
    then have i: "i < length orig" "i \<notin> set used" using ord by simp_all
    with sub have "i \<notin> set ?in" by blast
    with i(1) show "i < length orig \<and> \<not> is_normal (orig ! i)" by simp
  qed
  obtain normal' reciprocal' where
    rl: "reciprocal_only_loop True orig ?ro (normal, reciprocal) = (normal', reciprocal')"
    by (cases "reciprocal_only_loop True orig ?ro (normal, reciprocal)") auto
  from reciprocal_only_loop_inv [OF p2 inv] rl
  have fin: "list_all2 (aligned orig) normal' reciprocal'"
    by simp
  have "split_into_normal_and_reciprocal set_order True s = Inr (normal', reciprocal')"
    using c nl rl by (simp add: split_into_normal_and_reciprocal_def stored_columns_def Let_def)
  with fin show ?thesis by blast
qed

text \<open>
  C3: with padding, and whatever the order in which the set of the remaining indices is
  iterated, \<open>split_into_normal_and_reciprocal\<close> returns two arrays of the same length
  whose entries belong together position by position: a normal row beside a stored
  reciprocal of it, or beside the padding when the store has none, and the padding
  beside a stored row that is not normal. For the store of (1, 2, 3, 4) and (3, 4, 1, 2),
  in either order, the row (1, 2, 3, 4) stands beside (3, 4, 1, 2); for the store of
  (1, 2, 3, 4) alone it stands beside the padding.
\<close>

theorem split_padded_aligned:
  assumes ord: "\<forall>xs. set (set_order xs) = set xs"
  shows "(\<forall>orig. configs s = Some (StoredArray orig) \<longrightarrow>
      (\<exists>normal reciprocal.
         split_into_normal_and_reciprocal set_order True s = Inr (normal, reciprocal) \<and>
         length normal = length reciprocal \<and>
         (\<forall>k < length normal. aligned orig (normal ! k) (reciprocal ! k)))) \<and>
   (configs s = Some (StoredArray [(1, 2, 3, 4), (3, 4, 1, 2)]) \<longrightarrow>
      split_into_normal_and_reciprocal set_order True s
        = Inr ([Row (1, 2, 3, 4)], [Row (3, 4, 1, 2)])) \<and>
   (configs s = Some (StoredArray [(3, 4, 1, 2), (1, 2, 3, 4)]) \<longrightarrow>
      split_into_normal_and_reciprocal set_order True s
        = Inr ([Row (1, 2, 3, 4)], [Row (3, 4, 1, 2)])) \<and>
   (configs s = Some (StoredArray [(1, 2, 3, 4)]) \<longrightarrow>
      split_into_normal_and_reciprocal set_order True s = Inr ([Row (1, 2, 3, 4)], [Nan4]))"
proof -
  from ord have "set (set_order []) = {}"
    by simp
  then have e0: "set_order [] = []"
    by simp
  have g: "\<forall>orig. configs s = Some (StoredArray orig) \<longrightarrow>
      (\<exists>normal reciprocal.
         split_into_normal_and_reciprocal set_order True s = Inr (normal, reciprocal) \<and>
         length normal = length reciprocal \<and>
         (\<forall>k < length normal. aligned orig (normal ! k) (reciprocal ! k)))"
  proof (intro allI impI)
    fix orig assume "configs s = Some (StoredArray orig)"
    from split_padded_list_all2 [OF ord this] obtain normal reciprocal where
      r: "split_into_normal_and_reciprocal set_order True s = Inr (normal, reciprocal)"
      and l: "list_all2 (aligned orig) normal reciprocal"
      by blast
    from l have "length normal = length reciprocal"
      "\<forall>k < length normal. aligned orig (normal ! k) (reciprocal ! k)"
      by (simp_all add: list_all2_conv_all_nth)
    with r show "\<exists>normal reciprocal.
         split_into_normal_and_reciprocal set_order True s = Inr (normal, reciprocal) \<and>
         length normal = length reciprocal \<and>
         (\<forall>k < length normal. aligned orig (normal ! k) (reciprocal ! k))"
      by blast
  qed
  have e1: "configs s = Some (StoredArray [(1, 2, 3, 4), (3, 4, 1, 2)]) \<longrightarrow>
      split_into_normal_and_reciprocal set_order True s
        = Inr ([Row (1, 2, 3, 4)], [Row (3, 4, 1, 2)])"
    by (simp add: split_into_normal_and_reciprocal_def stored_columns_def sort_halves_def
        is_rec_of_def Let_def upt_conv_Cons e0)
  have e2: "configs s = Some (StoredArray [(3, 4, 1, 2), (1, 2, 3, 4)]) \<longrightarrow>
      split_into_normal_and_reciprocal set_order True s
        = Inr ([Row (1, 2, 3, 4)], [Row (3, 4, 1, 2)])"
    by (simp add: split_into_normal_and_reciprocal_def stored_columns_def sort_halves_def
        is_rec_of_def Let_def upt_conv_Cons e0)
  have e3: "configs s = Some (StoredArray [(1, 2, 3, 4)]) \<longrightarrow>
      split_into_normal_and_reciprocal set_order True s = Inr ([Row (1, 2, 3, 4)], [Nan4])"
    by (simp add: split_into_normal_and_reciprocal_def stored_columns_def sort_halves_def
        is_rec_of_def Let_def upt_conv_Cons e0)
  from g e1 e2 e3 show ?thesis by blast
qed

theorem split_padded_aligned_witness:
  "configs ((new_ConfigManager None :: unit ConfigManager)
             \<lparr>configs := Some (StoredArray [(1, 2, 3, 4), (3, 4, 1, 2)])\<rparr>)
     = Some (StoredArray [(1, 2, 3, 4), (3, 4, 1, 2)]) \<and>
   split_into_normal_and_reciprocal rev True
       ((new_ConfigManager None :: unit ConfigManager)
          \<lparr>configs := Some (StoredArray [(1, 2, 3, 4), (3, 4, 1, 2)])\<rparr>)
     = Inr ([Row (1, 2, 3, 4)], [Row (3, 4, 1, 2)]) \<and>
   (0 :: nat) < length [Row (1, 2, 3, 4)] \<and>
   aligned [(1, 2, 3, 4), (3, 4, 1, 2)] (Row (1, 2, 3, 4)) (Row (3, 4, 1, 2))"
proof -
  let ?s = "(new_ConfigManager None :: unit ConfigManager)
             \<lparr>configs := Some (StoredArray [(1, 2, 3, 4), (3, 4, 1, 2)])\<rparr>"
  have h: "configs ?s = Some (StoredArray [(1, 2, 3, 4), (3, 4, 1, 2)])"
    by simp
  have o: "\<forall>xs :: nat list. set (rev xs) = set xs"
    by simp
  note t = split_padded_aligned [of rev ?s, OF o]
  have e:
    "split_into_normal_and_reciprocal rev True ?s
       = Inr ([Row (1, 2, 3, 4)], [Row (3, 4, 1, 2)])"
    by (rule t [THEN conjunct2, THEN conjunct1, rule_format, OF h])
  from t [THEN conjunct1, rule_format, OF h] obtain normal reciprocal where
    r: "split_into_normal_and_reciprocal rev True ?s = Inr (normal, reciprocal)"
    and a: "\<forall>k < length normal.
              aligned [(1, 2, 3, 4), (3, 4, 1, 2)] (normal ! k) (reciprocal ! k)"
    by (elim exE conjE)
  from r e have n: "normal = [Row (1, 2, 3, 4)]" "reciprocal = [Row (3, 4, 1, 2)]"
    by simp_all
  have l: "(0 :: nat) < length [Row (1, 2, 3, 4)]"
    by simp
  from a [unfolded n, rule_format, OF l]
  have al: "aligned [(1, 2, 3, 4), (3, 4, 1, 2)] (Row (1, 2, 3, 4)) (Row (3, 4, 1, 2))"
    by simp
  show ?thesis
    by (intro conjI) (rule h, rule e, rule l, rule al)
qed

end
